theory Spec2Isabelle
  imports Complex_Main "HOL-Library.Word"
begin

section \<open>WAV volume editor: container codec and gain transform\<close>

text \<open>
  A shallow embedding of \<^verbatim>\<open>adjust_wav_volume.py\<close>: \<^verbatim>\<open>read_wav_chunks\<close>,
  \<^verbatim>\<open>write_wav_chunks\<close> and \<^verbatim>\<open>reduce_volume\<close>.

  \<^item> A file is the list of its bytes; reading a file gives the list, writing returns it.
  \<^item> A Python \<^verbatim>\<open>str\<close> is the list of its code points.
  \<^item> The dict \<^verbatim>\<open>chunks\<close> keeps insertion order, so it is an association list with
    the update of a Python dict: an existing key keeps its place, a new key goes last.
  \<^item> Every exception the source can raise is a value of \<open>error\<close>.
\<close>

subsection \<open>Bytes, strings, errors\<close>

type_synonym byte = "8 word"
type_synonym bytes = "byte list"
type_synonym str = "nat list"
type_synonym chunks = "(str \<times> bytes) list"

datatype error =
    NotRiffFile                 \<comment> \<open>\<^verbatim>\<open>ValueError("Not a valid RIFF file")\<close>\<close>
  | NotWavFile                  \<comment> \<open>\<^verbatim>\<open>ValueError("Not a valid WAV file")\<close>\<close>
  | DataChunkNotFound           \<comment> \<open>\<^verbatim>\<open>ValueError("'data' chunk not found in the WAV file")\<close>\<close>
  | UnsupportedSampleWidth nat  \<comment> \<open>\<^verbatim>\<open>ValueError(f"Unsupported sample width: {sampwidth}")\<close>\<close>
  | BufferSizeError             \<comment> \<open>the \<^verbatim>\<open>ValueError\<close> of \<^verbatim>\<open>np.frombuffer\<close>: buffer size
                                    must be a multiple of element size\<close>
  | UnicodeDecodeError          \<comment> \<open>\<^verbatim>\<open>bytes.decode('ascii')\<close> on a byte above 127\<close>
  | UnicodeEncodeError          \<comment> \<open>\<^verbatim>\<open>str.encode('ascii')\<close> on a code point above 127\<close>
  | StructError                 \<comment> \<open>\<^verbatim>\<open>struct.error\<close>\<close>
  | KeyError                    \<comment> \<open>a dict lookup of a missing key\<close>

definition slice :: "'a list \<Rightarrow> nat \<Rightarrow> nat \<Rightarrow> 'a list" where
  \<comment> \<open>\<^verbatim>\<open>xs[a:b]\<close> for \<open>0 \<le> a\<close>, \<open>0 \<le> b\<close>: a slice never raises, it is cut at the end\<close>
  "slice xs a b = take (b - a) (drop a xs)"

definition ascii_bytes :: "string \<Rightarrow> bytes" where
  \<comment> \<open>a bytes literal such as \<^verbatim>\<open>b'RIFF'\<close>\<close>
  "ascii_bytes s = map of_char s"

definition ascii_str :: "string \<Rightarrow> str" where
  \<comment> \<open>a str literal such as \<^verbatim>\<open>'RIFF'\<close>\<close>
  "ascii_str s = map of_char s"

definition decode_ascii :: "bytes \<Rightarrow> error + str" where
  \<comment> \<open>\<^verbatim>\<open>bs.decode('ascii')\<close>\<close>
  "decode_ascii bs =
     (if list_all (\<lambda>b. unat b < 128) bs then Inr (map unat bs) else Inl UnicodeDecodeError)"

definition decode_ascii_replace :: "bytes \<Rightarrow> str" where
  \<comment> \<open>\<^verbatim>\<open>bs.decode('ascii', errors="replace")\<close>: a byte above 127 becomes U+FFFD\<close>
  "decode_ascii_replace bs = map (\<lambda>b. if unat b < 128 then unat b else 65533) bs"

definition encode_ascii :: "str \<Rightarrow> error + bytes" where
  \<comment> \<open>\<^verbatim>\<open>s.encode('ascii')\<close>\<close>
  "encode_ascii s =
     (if list_all (\<lambda>c. c < 128) s then Inr (map of_nat s) else Inl UnicodeEncodeError)"

subsection \<open>\<^verbatim>\<open>struct.pack('<I', n)\<close> and \<^verbatim>\<open>struct.unpack('<I', bs)\<close>\<close>

definition le_nat :: "bytes \<Rightarrow> nat" where
  \<comment> \<open>the little-endian value of a byte string\<close>
  "le_nat bs = foldr (\<lambda>b n. unat b + 256 * n) bs 0"

fun le_bytes :: "nat \<Rightarrow> nat \<Rightarrow> bytes" where
  \<comment> \<open>the \<open>k\<close> low bytes of \<open>n\<close>, least significant first\<close>
  "le_bytes 0 n = []"
| "le_bytes (Suc k) n = of_nat (n mod 256) # le_bytes k (n div 256)"

definition unpack_u32 :: "bytes \<Rightarrow> error + nat" where
  "unpack_u32 bs = (if length bs = 4 then Inr (le_nat bs) else Inl StructError)"

definition pack_u32 :: "int \<Rightarrow> error + bytes" where
  "pack_u32 n = (if 0 \<le> n \<and> n < 2 ^ 32 then Inr (le_bytes 4 (nat n)) else Inl StructError)"

subsection \<open>The dict of chunks\<close>

fun dict_set :: "('k \<times> 'v) list \<Rightarrow> 'k \<Rightarrow> 'v \<Rightarrow> ('k \<times> 'v) list" where
  \<comment> \<open>\<^verbatim>\<open>d[k] = v\<close>\<close>
  "dict_set [] k v = [(k, v)]"
| "dict_set ((k', v') # d) k v = (if k' = k then (k, v) # d else (k', v') # dict_set d k v)"

definition dict_get :: "('k \<times> 'v) list \<Rightarrow> 'k \<Rightarrow> 'v option" where
  \<comment> \<open>the value \<^verbatim>\<open>d[k]\<close>, or \<open>None\<close> where \<^verbatim>\<open>k not in d\<close>\<close>
  "dict_get d k = map_of d k"

subsection \<open>\<^verbatim>\<open>read_wav_chunks\<close>\<close>

text \<open>
  The \<^verbatim>\<open>while\<close> loop of lines 24 to 38, from position \<open>pos\<close> with the dict \<open>chunks\<close>
  built so far. Each round moves \<open>pos\<close> forward by at least 8 while
  \<open>pos + 8 \<le> length data\<close>, which is the termination measure.
\<close>

function read_loop :: "bytes \<Rightarrow> nat \<Rightarrow> chunks \<Rightarrow> error + chunks" where
  "read_loop data pos chunks =
     (if pos + 8 \<le> length data then
        (let chunk_id = decode_ascii_replace (slice data pos (pos + 4)) in
         (case unpack_u32 (slice data (pos + 4) (pos + 8)) of
            Inl e \<Rightarrow> Inl e
          | Inr chunk_size \<Rightarrow>
              (let start = pos + 8; end = start + chunk_size in
               if end > length data then Inr chunks
               else
                 (let chunk_data = slice data start end in
                  read_loop data (if chunk_size mod 2 = 1 then end + 1 else end)
                    (dict_set chunks chunk_id chunk_data)))))
      else Inr chunks)"
  by pat_completeness auto
termination
  by (relation "measure (\<lambda>(data, pos, chunks). length data - pos)") auto

definition read_wav_chunks :: "bytes \<Rightarrow> error + (chunks \<times> nat)" where
  "read_wav_chunks data =
     (case decode_ascii (slice data 0 4) of
        Inl e \<Rightarrow> Inl e
      | Inr riff \<Rightarrow>
          (if riff \<noteq> ascii_str ''RIFF'' then Inl NotRiffFile
           else
             (case unpack_u32 (slice data 4 8) of
                Inl e \<Rightarrow> Inl e
              | Inr file_size \<Rightarrow>
                  (case decode_ascii (slice data 8 12) of
                     Inl e \<Rightarrow> Inl e
                   | Inr wave_header \<Rightarrow>
                       (if wave_header \<noteq> ascii_str ''WAVE'' then Inl NotWavFile
                        else
                          (case read_loop data 12 [] of
                             Inl e \<Rightarrow> Inl e
                           | Inr chunks \<Rightarrow> Inr (chunks, file_size)))))))"

subsection \<open>\<^verbatim>\<open>write_wav_chunks\<close>\<close>

text \<open>
  The bytes written to the output file. An exception in the middle of the loop leaves a
  partial file behind; the model returns the exception only.
\<close>

fun write_chunks :: "chunks \<Rightarrow> error + bytes" where
  \<comment> \<open>the \<^verbatim>\<open>for\<close> loop of lines 51 to 54\<close>
  "write_chunks [] = Inr []"
| "write_chunks ((chunk_id, chunk_data) # rest) =
     (case encode_ascii chunk_id of
        Inl e \<Rightarrow> Inl e
      | Inr idb \<Rightarrow>
          (case pack_u32 (int (length chunk_data)) of
             Inl e \<Rightarrow> Inl e
           | Inr szb \<Rightarrow>
               (case write_chunks rest of
                  Inl e \<Rightarrow> Inl e
                | Inr bs \<Rightarrow> Inr (idb @ szb @ chunk_data @ bs))))"

definition write_wav_chunks :: "chunks \<Rightarrow> int \<Rightarrow> error + bytes" where
  "write_wav_chunks chunks original_size =
     (case pack_u32 original_size of
        Inl e \<Rightarrow> Inl e
      | Inr szb \<Rightarrow>
          (case write_chunks chunks of
             Inl e \<Rightarrow> Inl e
           | Inr bs \<Rightarrow> Inr (ascii_bytes ''RIFF'' @ szb @ ascii_bytes ''WAVE'' @ bs)))"

subsection \<open>float32\<close>

text \<open>
  The samples are processed as a NumPy array of \<^verbatim>\<open>float32\<close>. A finite float32 value is
  modelled by the rational number it denotes, and every operation that produces a float32
  rounds its exact result to the nearest value with a 24-bit significand, ties to even
  (IEEE 754 binary32, subnormal numbers included). Overflow to infinity is not modelled:
  a result too large for float32 stays a large rational, and \<^verbatim>\<open>np.clip\<close>, which follows
  at once, maps both to the same bound.
\<close>

fun bitlen :: "nat \<Rightarrow> nat" where
  \<comment> \<open>the number of binary digits of \<open>n\<close>\<close>
  "bitlen n = (if n = 0 then 0 else Suc (bitlen (n div 2)))"

declare bitlen.simps [simp del]

fun frac_exponent :: "nat \<Rightarrow> rat \<Rightarrow> int" where
  \<comment> \<open>for \<open>0 < a < 1\<close>: the binary exponent of \<open>a\<close>, not below \<open>- fuel\<close>\<close>
  "frac_exponent 0 a = 0"
| "frac_exponent (Suc fuel) a = (if 1 \<le> a then 0 else frac_exponent fuel (2 * a) - 1)"

definition f32_exponent :: "rat \<Rightarrow> int" where
  \<comment> \<open>for \<open>0 < a\<close>: the \<open>e\<close> with \<open>2 ^ e \<le> a < 2 ^ (e + 1)\<close>, and \<open>-126\<close> in the subnormal range\<close>
  "f32_exponent a =
     (if 1 \<le> a then int (bitlen (nat \<lfloor>a\<rfloor>)) - 1 else frac_exponent 126 a)"

definition round_half_even :: "rat \<Rightarrow> int" where
  "round_half_even q =
     (let f = \<lfloor>q\<rfloor>; r = q - of_int f in
      if r < 1 / 2 then f else if 1 / 2 < r then f + 1 else if even f then f else f + 1)"

definition f32_round :: "rat \<Rightarrow> rat" where
  "f32_round x =
     (if x = 0 then 0
      else
        (let ulp = power_int 2 (f32_exponent \<bar>x\<bar> - 23) in
         of_int (round_half_even (x / ulp)) * ulp))"

definition truncate :: "rat \<Rightarrow> int" where
  \<comment> \<open>rounding toward zero, as a C cast from float to an integer type does\<close>
  "truncate v = (if 0 \<le> v then \<lfloor>v\<rfloor> else \<lceil>v\<rceil>)"

subsection \<open>NumPy arrays of integers\<close>

text \<open>
  An integer array is the list of its values, each within the range of its dtype.
  \<^verbatim>\<open>np.int16\<close> and \<^verbatim>\<open>np.int32\<close> have the byte order of the machine, taken to be
  little-endian. A cast from float32 to an integer type truncates toward zero; for a
  value outside the target range C leaves the result open, and the model takes what
  x86-64 builds of NumPy give for the values that can reach the cast here: the truncated
  value modulo \<open>2 ^ bits\<close>.
\<close>

datatype dtype = UInt8 | Int16 | Int32

fun itemsize :: "dtype \<Rightarrow> nat" where
  "itemsize UInt8 = 1"
| "itemsize Int16 = 2"
| "itemsize Int32 = 4"

fun wrap :: "dtype \<Rightarrow> int \<Rightarrow> int" where
  \<comment> \<open>the value of the dtype that is congruent to \<open>i\<close> modulo \<open>2 ^ bits\<close>\<close>
  "wrap UInt8 i = i mod 2 ^ 8"
| "wrap Int16 i = (i + 2 ^ 15) mod 2 ^ 16 - 2 ^ 15"
| "wrap Int32 i = (i + 2 ^ 31) mod 2 ^ 32 - 2 ^ 31"

function items :: "nat \<Rightarrow> bytes \<Rightarrow> bytes list" where
  \<comment> \<open>a buffer cut into items of \<open>k\<close> bytes\<close>
  "items k buf = (if k = 0 \<or> buf = [] then [] else take k buf # items k (drop k buf))"
  by pat_completeness auto
termination
  by (relation "measure (\<lambda>(k, buf). length buf)") auto

declare items.simps [simp del]

definition frombuffer :: "bytes \<Rightarrow> dtype \<Rightarrow> error + int list" where
  \<comment> \<open>\<^verbatim>\<open>np.frombuffer(buf, dtype=dt)\<close>\<close>
  "frombuffer buf dt =
     (if length buf mod itemsize dt \<noteq> 0 then Inl BufferSizeError
      else Inr (map (\<lambda>item. wrap dt (int (le_nat item))) (items (itemsize dt) buf)))"

definition astype_float32 :: "int \<Rightarrow> rat" where
  "astype_float32 i = f32_round (of_int i)"

definition astype :: "dtype \<Rightarrow> rat \<Rightarrow> int" where
  \<comment> \<open>the float32 to integer direction of \<^verbatim>\<open>a.astype(dt)\<close>\<close>
  "astype dt v = wrap dt (truncate v)"

definition tobytes :: "dtype \<Rightarrow> int list \<Rightarrow> bytes" where
  "tobytes dt xs =
     concat (map (\<lambda>x. le_bytes (itemsize dt) (nat (x mod 2 ^ (8 * itemsize dt)))) xs)"

definition clip :: "rat \<Rightarrow> int \<Rightarrow> int \<Rightarrow> rat" where
  \<comment> \<open>\<^verbatim>\<open>np.clip(a, a_min, a_max)\<close> on a float32 array with Python integers as bounds:
      the bounds become float32, the result is \<^verbatim>\<open>minimum(maximum(a, a_min), a_max)\<close>\<close>
  "clip v a_min a_max = min (max v (f32_round (of_int a_min))) (f32_round (of_int a_max))"

subsection \<open>\<^verbatim>\<open>reduce_volume\<close>\<close>

text \<open>
  \<^verbatim>\<open>sampwidth\<close> is what \<^verbatim>\<open>wave.open(input_wav).getsampwidth()\<close> returns; the \<^verbatim>\<open>wave\<close>
  module belongs to the standard library and its result is a parameter of the model.
  \<^verbatim>\<open>db_change\<close> enters the computation only through
  \<^verbatim>\<open>volume_change_factor = 10 ** (db_change / 20)\<close>; the parameter of the model is this
  factor as the finite float32 value the array is multiplied by. \<^verbatim>\<open>db_change = 0\<close> gives
  the factor 1.
\<close>

definition new_frames_of :: "nat \<Rightarrow> rat \<Rightarrow> bytes \<Rightarrow> error + bytes" where
  \<comment> \<open>lines 82 to 112: from \<^verbatim>\<open>audio_frames\<close> to \<^verbatim>\<open>new_frames\<close>\<close>
  "new_frames_of sampwidth volume_change_factor audio_frames =
     (case
        (if sampwidth = 1 then
           (case frombuffer audio_frames UInt8 of
              Inl e \<Rightarrow> Inl e
            | Inr a \<Rightarrow> Inr (UInt8, map (\<lambda>x. f32_round (astype_float32 x - 128)) a))
         else if sampwidth = 2 then
           (case frombuffer audio_frames Int16 of
              Inl e \<Rightarrow> Inl e
            | Inr a \<Rightarrow> Inr (Int16, map astype_float32 a))
         else if sampwidth = 4 then
           (case frombuffer audio_frames Int32 of
              Inl e \<Rightarrow> Inl e
            | Inr a \<Rightarrow> Inr (Int32, map astype_float32 a))
         else Inl (UnsupportedSampleWidth sampwidth))
      of
        Inl e \<Rightarrow> Inl e
      | Inr (dtype, audio_data) \<Rightarrow>
          (let scaled = map (\<lambda>v. f32_round (v * volume_change_factor)) audio_data;
               max_val = 2 ^ (8 * sampwidth - 1) - 1;
               min_val = - max_val - 1;
               clipped = map (\<lambda>v. clip v min_val max_val) scaled;
               ints = map (astype dtype) clipped;
               ints' = (if sampwidth = 1 then map (\<lambda>x. wrap UInt8 (x + 128)) ints else ints)
           in Inr (tobytes dtype ints')))"

definition replace_data :: "chunks \<Rightarrow> nat \<Rightarrow> rat \<Rightarrow> (error + bytes) \<times> chunks" where
  \<comment> \<open>lines 61 to 115 on the dict \<^verbatim>\<open>chunks\<close>: the exception raised or \<^verbatim>\<open>new_frames\<close>,
      and the dict as these lines leave it\<close>
  "replace_data chunks sampwidth volume_change_factor =
     (case dict_get chunks (ascii_str ''data'') of
        None \<Rightarrow> (Inl DataChunkNotFound, chunks)
      | Some audio_frames \<Rightarrow>
          (case new_frames_of sampwidth volume_change_factor audio_frames of
             Inl e \<Rightarrow> (Inl e, chunks)
           | Inr new_frames \<Rightarrow>
               (Inr new_frames, dict_set chunks (ascii_str ''data'') new_frames)))"

definition reduce_volume :: "bytes \<Rightarrow> nat \<Rightarrow> rat \<Rightarrow> error + bytes" where
  \<comment> \<open>the bytes of the output file for the bytes of the input file\<close>
  "reduce_volume input_wav sampwidth volume_change_factor =
     (case read_wav_chunks input_wav of
        Inl e \<Rightarrow> Inl e
      | Inr (chunks, original_size) \<Rightarrow>
          (case replace_data chunks sampwidth volume_change_factor of
             (Inl e, chunks') \<Rightarrow> Inl e
           | (Inr new_frames, chunks') \<Rightarrow>
               (case dict_get chunks' (ascii_str ''data'') of
                  None \<Rightarrow> Inl KeyError
                | Some d \<Rightarrow>
                    (let new_size = int original_size - int (length d) + int (length new_frames)
                     in write_wav_chunks chunks' new_size))))"

subsection \<open>The layout of a chunk sequence in a file\<close>

text \<open>
  The input files the theorems below speak of. A chunk of the RIFF container is its
  4-byte identifier, the length of its payload in 4 bytes, least significant first, the
  payload, and one pad byte after a payload of odd length. \<open>riff_file\<close> is a file with the
  two tags, a declared size, a sequence of such chunks and whatever bytes follow them.
\<close>

definition chunk_bytes :: "bytes \<times> bytes \<Rightarrow> bytes" where
  "chunk_bytes c =
     fst c @ le_bytes 4 (length (snd c)) @ snd c @ (if odd (length (snd c)) then [0] else [])"

definition riff_file :: "nat \<Rightarrow> (bytes \<times> bytes) list \<Rightarrow> bytes \<Rightarrow> bytes" where
  "riff_file declared_size cs tail =
     ascii_bytes ''RIFF'' @ le_bytes 4 declared_size @ ascii_bytes ''WAVE''
       @ concat (map chunk_bytes cs) @ tail"

definition well_sized :: "bytes \<times> bytes \<Rightarrow> bool" where
  "well_sized c \<longleftrightarrow> length (fst c) = 4 \<and> length (snd c) < 2 ^ 32"

definition keep_chunk :: "chunks \<Rightarrow> bytes \<times> bytes \<Rightarrow> chunks" where
  \<comment> \<open>what one round of the loop does to the dict for a chunk that is read in full\<close>
  "keep_chunk d c = dict_set d (decode_ascii_replace (fst c)) (snd c)"

definition truncated :: "bytes \<Rightarrow> bool" where
  \<comment> \<open>bytes that do not hold a whole chunk: no room for a header, or a header that
      declares more payload than there is\<close>
  "truncated tail \<longleftrightarrow> length tail < 8 \<or> length tail < 8 + le_nat (slice tail 4 8)"

definition written_chunk :: "str \<times> bytes \<Rightarrow> bytes" where
  \<comment> \<open>the bytes one round of the loop of \<^verbatim>\<open>write_wav_chunks\<close> writes, for an identifier
      that \<^verbatim>\<open>encode('ascii')\<close> accepts and a length that \<^verbatim>\<open>struct.pack\<close> accepts\<close>
  "written_chunk c = map of_nat (fst c) @ le_bytes 4 (length (snd c)) @ snd c"

definition wav_fmt :: "nat \<Rightarrow> bytes \<times> bytes" where
  \<comment> \<open>the format chunk of a mono PCM file at 44100 Hz with samples of \<open>w\<close> bytes\<close>
  "wav_fmt w =
     (ascii_bytes ''fmt '',
      [1, 0, 1, 0] @ le_bytes 4 44100 @ le_bytes 4 (44100 * w) @ le_bytes 2 w @ le_bytes 2 (8 * w))"

definition processed :: "dtype \<Rightarrow> nat \<Rightarrow> rat \<Rightarrow> int \<Rightarrow> int" where
  \<comment> \<open>what lines 84 to 111 make of one element of the array: the array operations of
      \<^verbatim>\<open>reduce_volume\<close> all work element by element\<close>
  "processed dt sampwidth volume_change_factor x =
     (let v = (if sampwidth = 1 then f32_round (astype_float32 x - 128) else astype_float32 x);
          max_val = 2 ^ (8 * sampwidth - 1) - 1;
          min_val = - max_val - 1;
          i = astype dt (clip (f32_round (v * volume_change_factor)) min_val max_val)
      in if sampwidth = 1 then wrap UInt8 (i + 128) else i)"

definition example_chunks :: "nat \<Rightarrow> bytes \<Rightarrow> bytes \<Rightarrow> (bytes \<times> bytes) list" where
  \<comment> \<open>the chunks of a small file: the format chunk, a 2-byte chunk under the identifier
      \<open>i\<close>, and the \<^verbatim>\<open>data\<close> chunk\<close>
  "example_chunks w i frames = [wav_fmt w, (i, [9, 9]), (ascii_bytes ''data'', frames)]"

definition example_dict :: "nat \<Rightarrow> str \<Rightarrow> bytes \<Rightarrow> chunks" where
  \<comment> \<open>the dict of these chunks, the second one under the key \<open>k\<close>\<close>
  "example_dict w k frames =
     [(ascii_str ''fmt '', snd (wav_fmt w)), (k, [9, 9]), (ascii_str ''data'', frames)]"

definition odd_chunks :: chunks where
  \<comment> \<open>a dict with a payload of odd length that is not the last one\<close>
  "odd_chunks =
     [(ascii_str ''fmt '', snd (wav_fmt 2)), (ascii_str ''note'', [7, 7, 7]),
      (ascii_str ''data'', [1, 0, 2, 0])]"

definition decode_after_encode :: "chunks \<Rightarrow> int \<Rightarrow> error + (chunks \<times> nat)" where
  \<comment> \<open>\<^verbatim>\<open>write_wav_chunks\<close> to a file, then \<^verbatim>\<open>read_wav_chunks\<close> of that file\<close>
  "decode_after_encode chunks sz =
     (case write_wav_chunks chunks sz of Inl e \<Rightarrow> Inl e | Inr out \<Rightarrow> read_wav_chunks out)"

section \<open>Properties\<close>

subsection \<open>Byte strings\<close>

declare read_loop.simps [simp del]

lemma length_le_bytes [simp]: "length (le_bytes k n) = k"
  by (induction k arbitrary: n) auto

lemma le_nat_Nil [simp]: "le_nat [] = 0"
  by (simp add: le_nat_def)

lemma le_nat_Cons [simp]: "le_nat (b # bs) = unat b + 256 * le_nat bs"
  by (simp add: le_nat_def)

lemma le_nat_le_bytes: "n < 256 ^ k \<Longrightarrow> le_nat (le_bytes k n) = n"
proof (induction k arbitrary: n)
  case 0
  then show ?case by simp
next
  case (Suc k)
  have "n div 256 < 256 ^ k"
    using Suc.prems by (simp add: less_mult_imp_div_less mult.commute)
  then have "le_nat (le_bytes k (n div 256)) = n div 256"
    by (rule Suc.IH)
  then show ?case
    by (simp add: unat_of_nat)
qed

lemma le_nat_bound: "le_nat bs < 256 ^ length bs"
proof (induction bs)
  case Nil
  then show ?case by simp
next
  case (Cons b bs)
  have "unat b < 256"
    using unsigned_less [of b] by simp
  with Cons show ?case by simp
qed

lemma length_slice [simp]: "length (slice xs a b) = min (b - a) (length xs - a)"
  by (simp add: slice_def)

lemma unpack_u32_slice:
  "pos + 8 \<le> length data \<Longrightarrow>
   unpack_u32 (slice data (pos + 4) (pos + 8)) = Inr (le_nat (slice data (pos + 4) (pos + 8)))"
  by (simp add: unpack_u32_def)

subsection \<open>The reading loop\<close>

lemma read_loop_exit: "length data < pos + 8 \<Longrightarrow> read_loop data pos acc = Inr acc"
  by (simp add: read_loop.simps)

lemma read_loop_past_end:
  "pos + 8 \<le> length data \<Longrightarrow>
   length data < pos + 8 + le_nat (slice data (pos + 4) (pos + 8)) \<Longrightarrow>
   read_loop data pos acc = Inr acc"
  by (subst read_loop.simps) (simp add: unpack_u32_slice Let_def)

lemma read_loop_step:
  "pos + 8 \<le> length data \<Longrightarrow>
   n = le_nat (slice data (pos + 4) (pos + 8)) \<Longrightarrow>
   pos + 8 + n \<le> length data \<Longrightarrow>
   read_loop data pos acc =
     read_loop data (pos + 8 + n + n mod 2)
       (dict_set acc (decode_ascii_replace (slice data pos (pos + 4)))
          (slice data (pos + 8) (pos + 8 + n)))"
  by (subst read_loop.simps) (auto simp add: unpack_u32_slice Let_def mod_2_eq_odd)

lemma read_loop_total: "\<exists>chunks'. read_loop data pos chunks = Inr chunks'"
proof (induction data pos chunks rule: read_loop.induct)
  case (1 data pos chunks)
  show ?case
  proof (cases "pos + 8 \<le> length data")
    case False
    then show ?thesis by (simp add: read_loop_exit)
  next
    case True
    let ?n = "le_nat (slice data (pos + 4) (pos + 8))"
    show ?thesis
    proof (cases "pos + 8 + ?n \<le> length data")
      case False
      with True show ?thesis by (simp add: read_loop_past_end)
    next
      case fits: True
      have u: "unpack_u32 (slice data (pos + 4) (pos + 8)) = Inr ?n"
        using True by (rule unpack_u32_slice)
      have "\<exists>chunks'. read_loop data (if ?n mod 2 = 1 then pos + 8 + ?n + 1 else pos + 8 + ?n)
              (dict_set chunks (decode_ascii_replace (slice data pos (pos + 4)))
                 (slice data (pos + 8) (pos + 8 + ?n))) = Inr chunks'"
        using "1.IH" [OF True refl u refl refl _ refl] fits by simp
      then show ?thesis
        using True fits by (subst read_loop.simps) (simp add: u Let_def)
    qed
  qed
qed

lemma slice_append_right:
  "slice (a @ b) (length a + i) (length a + j) = slice b i j"
  by (simp add: slice_def)

lemma slice_prefix: "slice (a @ b) 0 (length a) = a"
  by (simp add: slice_def)

lemma chunk_slices:
  assumes "length i = 4" "length s = 4"
  shows "slice (pre @ i @ s @ p @ rest) (length pre) (length pre + 4) = i"
    and "slice (pre @ i @ s @ p @ rest) (length pre + 4) (length pre + 8) = s"
    and "slice (pre @ i @ s @ p @ rest) (length pre + 8) (length pre + 8 + length p) = p"
  using assms by (simp_all add: slice_def)

lemma length_chunk_bytes:
  "length (chunk_bytes c) = length (fst c) + 4 + length (snd c) + length (snd c) mod 2"
  by (simp add: chunk_bytes_def mod_2_eq_odd)

lemma read_loop_chunk:
  assumes "well_sized c"
  shows "read_loop (pre @ chunk_bytes c @ rest) (length pre) acc =
         read_loop (pre @ chunk_bytes c @ rest) (length (pre @ chunk_bytes c)) (keep_chunk acc c)"
proof -
  obtain i p where c: "c = (i, p)" by (cases c)
  have li: "length i = 4" and lp: "length p < 2 ^ 32"
    using assms by (simp_all add: c well_sized_def)
  let ?s = "le_bytes 4 (length p)"
  let ?pad = "if odd (length p) then [0::byte] else []"
  let ?data = "pre @ i @ ?s @ p @ ?pad @ rest"
  have data: "pre @ chunk_bytes c @ rest = ?data"
    by (simp add: chunk_bytes_def c)
  have n: "le_nat ?s = length p"
    using lp by (simp add: le_nat_le_bytes)
  have s1: "slice ?data (length pre) (length pre + 4) = i"
    and s2: "slice ?data (length pre + 4) (length pre + 8) = ?s"
    and s3: "slice ?data (length pre + 8) (length pre + 8 + length p) = p"
    using li by (simp_all add: chunk_slices)
  have step: "read_loop ?data (length pre) acc =
        read_loop ?data (length pre + 8 + length p + length p mod 2)
          (dict_set acc (decode_ascii_replace (fst c)) (snd c))"
    using read_loop_step [of "length pre" ?data "length p" acc] li
    by (simp add: s1 s2 s3 n c)
  have len: "length (pre @ chunk_bytes c) = length pre + 8 + length p + length p mod 2"
    using li by (simp add: length_chunk_bytes c)
  show ?thesis
    unfolding data len keep_chunk_def by (rule step)
qed

lemma read_loop_chunks:
  "list_all well_sized cs \<Longrightarrow>
   read_loop (pre @ concat (map chunk_bytes cs) @ tail) (length pre) acc =
   read_loop (pre @ concat (map chunk_bytes cs) @ tail)
     (length pre + length (concat (map chunk_bytes cs))) (foldl keep_chunk acc cs)"
proof (induction cs arbitrary: pre acc)
  case Nil
  then show ?case by simp
next
  case (Cons c cs)
  let ?rest = "concat (map chunk_bytes cs) @ tail"
  have "read_loop (pre @ chunk_bytes c @ ?rest) (length pre) acc =
        read_loop (pre @ chunk_bytes c @ ?rest) (length (pre @ chunk_bytes c)) (keep_chunk acc c)"
    using Cons.prems by (intro read_loop_chunk) simp
  also have "\<dots> = read_loop ((pre @ chunk_bytes c) @ ?rest)
                 (length (pre @ chunk_bytes c) + length (concat (map chunk_bytes cs)))
                 (foldl keep_chunk (keep_chunk acc c) cs)"
    using Cons.IH [of "pre @ chunk_bytes c" "keep_chunk acc c"] Cons.prems by simp
  finally show ?case by (simp add: add.assoc)
qed

lemma read_loop_truncated:
  assumes "truncated tail"
  shows "read_loop (pre @ tail) (length pre) acc = Inr acc"
proof (cases "length tail < 8")
  case True
  then show ?thesis by (simp add: read_loop_exit)
next
  case False
  then have "length tail < 8 + le_nat (slice tail 4 8)"
    using assms by (simp add: truncated_def)
  moreover have "slice (pre @ tail) (length pre + 4) (length pre + 8) = slice tail 4 8"
    by (rule slice_append_right)
  ultimately show ?thesis
    using False by (intro read_loop_past_end) simp_all
qed

lemma header_ok:
  "decode_ascii (ascii_bytes ''RIFF'') = Inr (ascii_str ''RIFF'')"
  "decode_ascii (ascii_bytes ''WAVE'') = Inr (ascii_str ''WAVE'')"
  by (simp_all add: decode_ascii_def ascii_bytes_def ascii_str_def)

lemma read_wav_chunks_tagged:
  assumes "slice data 0 4 = ascii_bytes ''RIFF''" and "slice data 8 12 = ascii_bytes ''WAVE''"
    and "read_loop data 12 [] = Inr chunks"
  shows "read_wav_chunks data = Inr (chunks, le_nat (slice data 4 8))"
proof -
  have "length (slice data 8 12) = 4"
    by (simp add: assms(2) ascii_bytes_def)
  then have "12 \<le> length data" by simp
  then have "unpack_u32 (slice data 4 8) = Inr (le_nat (slice data 4 8))"
    by (simp add: unpack_u32_def)
  then show ?thesis
    by (simp add: read_wav_chunks_def assms header_ok)
qed

lemma riff_file_slices:
  "slice (riff_file sz cs tail) 0 4 = ascii_bytes ''RIFF''"
  "slice (riff_file sz cs tail) 4 8 = le_bytes 4 sz"
  "slice (riff_file sz cs tail) 8 12 = ascii_bytes ''WAVE''"
  by (simp_all add: riff_file_def slice_def ascii_bytes_def)

lemma read_wav_chunks_riff_file:
  assumes "list_all well_sized cs" and "truncated tail" and "sz < 2 ^ 32"
  shows "read_wav_chunks (riff_file sz cs tail) = Inr (foldl keep_chunk [] cs, sz)"
proof -
  let ?pre = "ascii_bytes ''RIFF'' @ le_bytes 4 sz @ ascii_bytes ''WAVE''"
  let ?body = "concat (map chunk_bytes cs)"
  have len: "length ?pre = 12" by (simp add: ascii_bytes_def)
  have shape: "riff_file sz cs tail = ?pre @ ?body @ tail"
    by (simp add: riff_file_def)
  have "read_loop (?pre @ ?body @ tail) (length ?pre) [] =
        read_loop (?pre @ ?body @ tail) (length ?pre + length ?body) (foldl keep_chunk [] cs)"
    using assms(1) by (rule read_loop_chunks)
  also have "\<dots> = read_loop ((?pre @ ?body) @ tail) (length (?pre @ ?body)) (foldl keep_chunk [] cs)"
    by (simp add: add.assoc)
  also have "\<dots> = Inr (foldl keep_chunk [] cs)"
    using assms(2) by (rule read_loop_truncated)
  finally have "read_loop (riff_file sz cs tail) 12 [] = Inr (foldl keep_chunk [] cs)"
    by (simp only: shape len)
  then have "read_wav_chunks (riff_file sz cs tail) =
             Inr (foldl keep_chunk [] cs, le_nat (slice (riff_file sz cs tail) 4 8))"
    by (intro read_wav_chunks_tagged riff_file_slices)
  then show ?thesis
    using assms(3) by (simp add: riff_file_slices le_nat_le_bytes)
qed

subsection \<open>The dict\<close>

lemma map_of_dict_set: "map_of (dict_set d k v) = (map_of d)(k \<mapsto> v)"
  by (induction d k v rule: dict_set.induct) auto

lemma keys_dict_set: "fst ` set (dict_set d k v) = insert k (fst ` set d)"
  by (induction d k v rule: dict_set.induct) auto

lemma distinct_dict_set:
  "distinct (map fst d) \<Longrightarrow> distinct (map fst (dict_set d k v))"
proof (induction d k v rule: dict_set.induct)
  case (1 k v)
  then show ?case by simp
next
  case (2 k' v' d k v)
  then show ?case
    using keys_dict_set [of d k v] by (auto simp del: keys_dict_set)
qed

lemma length_dict_set_present:
  "map_of d k \<noteq> None \<Longrightarrow> length (dict_set d k v) = length d"
  by (induction d k v rule: dict_set.induct) auto

lemma map_fst_dict_set_present:
  "map_of d k \<noteq> None \<Longrightarrow> map fst (dict_set d k v) = map fst d"
  by (induction d k v rule: dict_set.induct) auto

lemma nth_dict_set_other:
  "n < length d \<Longrightarrow> fst (d ! n) \<noteq> k \<Longrightarrow> dict_set d k v ! n = d ! n"
proof (induction d k v arbitrary: n rule: dict_set.induct)
  case (1 k v)
  then show ?case by simp
next
  case (2 k' v' d k v)
  then show ?case by (cases n) auto
qed

lemma distinct_foldl_keep_chunk:
  "distinct (map fst d) \<Longrightarrow> distinct (map fst (foldl keep_chunk d cs))"
  by (induction cs arbitrary: d) (simp_all add: keep_chunk_def distinct_dict_set)

lemma map_of_foldl_keep_chunk_other:
  "\<forall>c \<in> set cs. decode_ascii_replace (fst c) \<noteq> k \<Longrightarrow>
   map_of (foldl keep_chunk d cs) k = map_of d k"
  by (induction cs arbitrary: d) (auto simp add: keep_chunk_def map_of_dict_set)

lemma map_of_foldl_keep_chunk_last:
  assumes "\<forall>c \<in> set later. decode_ascii_replace (fst c) \<noteq> decode_ascii_replace i"
  shows "map_of (foldl keep_chunk d (before @ (i, p) # later)) (decode_ascii_replace i) = Some p"
proof -
  have "map_of (foldl keep_chunk d (before @ (i, p) # later)) (decode_ascii_replace i) =
        map_of (keep_chunk (foldl keep_chunk d before) (i, p)) (decode_ascii_replace i)"
    using assms by (simp add: map_of_foldl_keep_chunk_other)
  then show ?thesis
    by (simp add: keep_chunk_def map_of_dict_set)
qed

lemma truncated_Nil: "truncated []"
  by (simp add: truncated_def)

text \<open>
  Last write wins under a key: the entry of a key holds the payload of the last chunk
  whose identifier decodes to that key. An ASCII identifier is the only one that decodes
  to its key.
\<close>

lemma decode_ascii_replace_inject:
  "list_all (\<lambda>b. unat b < 128) i \<Longrightarrow> decode_ascii_replace c = decode_ascii_replace i \<Longrightarrow> c = i"
proof (induction i arbitrary: c)
  case Nil
  then show ?case by (simp add: decode_ascii_replace_def)
next
  case (Cons b i)
  then obtain b' c' where c: "c = b' # c'"
    by (cases c) (auto simp add: decode_ascii_replace_def)
  from Cons.prems have "unat b' = unat b"
    by (auto simp add: c decode_ascii_replace_def split: if_splits)
  then have "b' = b"
    by (simp add: word_unat_eq_iff)
  moreover have "c' = i"
    using Cons.prems by (intro Cons.IH) (simp_all add: c decode_ascii_replace_def)
  ultimately show ?case
    by (simp add: c)
qed

lemma last_chunk_of_key_kept:
  assumes "list_all well_sized (before @ (i, p) # later)" and "sz < 2 ^ 32"
    and "\<forall>c \<in> set later. decode_ascii_replace (fst c) \<noteq> decode_ascii_replace i"
  shows "\<exists>chunks.
           read_wav_chunks (riff_file sz (before @ (i, p) # later) []) = Inr (chunks, sz) \<and>
           dict_get chunks (decode_ascii_replace i) = Some p \<and>
           distinct (map fst chunks)"
proof -
  let ?chunks = "foldl keep_chunk [] (before @ (i, p) # later)"
  have "read_wav_chunks (riff_file sz (before @ (i, p) # later) []) = Inr (?chunks, sz)"
    using assms(1) truncated_Nil assms(2) by (rule read_wav_chunks_riff_file)
  moreover have "dict_get ?chunks (decode_ascii_replace i) = Some p"
    unfolding dict_get_def using assms(3) by (rule map_of_foldl_keep_chunk_last)
  moreover have "distinct (map fst ?chunks)"
    by (rule distinct_foldl_keep_chunk) simp
  ultimately show ?thesis by blast
qed

lemma ascii_identifier_last_wins:
  assumes "list_all well_sized (before @ (i, p) # later)" and "sz < 2 ^ 32"
    and "list_all (\<lambda>b. unat b < 128) i"
    and "\<forall>c \<in> set later. fst c \<noteq> i"
  shows "\<exists>chunks.
           read_wav_chunks (riff_file sz (before @ (i, p) # later) []) = Inr (chunks, sz) \<and>
           dict_get chunks (decode_ascii_replace i) = Some p \<and>
           distinct (map fst chunks)"
proof -
  have "\<forall>c \<in> set later. decode_ascii_replace (fst c) \<noteq> decode_ascii_replace i"
    using assms(3,4) by (auto dest: decode_ascii_replace_inject)
  with assms(1,2) show ?thesis
    by (rule last_chunk_of_key_kept)
qed

subsection \<open>The gain transform\<close>

lemma length_items:
  "0 < k \<Longrightarrow> length buf mod k = 0 \<Longrightarrow> length (items k buf) * k = length buf"
proof (induction k buf rule: items.induct)
  case (1 k buf)
  show ?case
  proof (cases "buf = []")
    case True
    then show ?thesis by (simp add: items.simps)
  next
    case False
    have "k dvd length buf"
      using "1.prems" by (simp add: mod_eq_0_iff_dvd)
    then have le: "k \<le> length buf"
      using False by (simp add: dvd_imp_le)
    have "k dvd length buf - k"
      using \<open>k dvd length buf\<close> by (simp add: dvd_diff_nat)
    then have "(length buf - k) mod k = 0"
      by (simp add: mod_eq_0_iff_dvd)
    then have "length (items k (drop k buf)) * k = length buf - k"
      using "1.IH" "1.prems" False by simp
    then show ?thesis
      using "1.prems" False le by (subst items.simps) simp
  qed
qed

lemma length_frombuffer:
  "frombuffer buf dt = Inr a \<Longrightarrow> length a * itemsize dt = length buf"
proof -
  assume a: "frombuffer buf dt = Inr a"
  have k: "0 < itemsize dt" by (cases dt) simp_all
  from a have m: "length buf mod itemsize dt = 0"
    by (simp add: frombuffer_def split: if_splits)
  from a m have "length a = length (items (itemsize dt) buf)"
    by (auto simp add: frombuffer_def)
  then show ?thesis
    using length_items [OF k m] by simp
qed

lemma length_tobytes: "length (tobytes dt xs) = length xs * itemsize dt"
  by (induction xs) (simp_all add: tobytes_def)

lemma new_frames_of_length:
  assumes "new_frames_of sampwidth factor audio_frames = Inr new_frames"
  shows "length new_frames = length audio_frames"
  using assms
  by (auto simp add: new_frames_of_def Let_def length_tobytes
      split: if_splits sum.splits dest: length_frombuffer)

lemma new_frames_of_unsupported:
  "sampwidth \<notin> {1, 2, 4} \<Longrightarrow>
   new_frames_of sampwidth factor audio_frames = Inl (UnsupportedSampleWidth sampwidth)"
  by (simp add: new_frames_of_def)

lemma new_frames_of_partial_sample:
  "sampwidth = 2 \<or> sampwidth = 4 \<Longrightarrow> length audio_frames mod sampwidth \<noteq> 0 \<Longrightarrow>
   new_frames_of sampwidth factor audio_frames = Inl BufferSizeError"
  by (auto simp add: new_frames_of_def frombuffer_def)

lemma write_wav_chunks_shape:
  assumes "write_wav_chunks chunks sz = Inr out"
  shows "0 \<le> sz \<and> sz < 2 ^ 32 \<and> slice out 4 8 = le_bytes 4 (nat sz)"
  using assms
  by (auto simp add: write_wav_chunks_def pack_u32_def slice_def ascii_bytes_def
      split: if_splits sum.splits)

lemma reduce_volume_Inr:
  assumes "read_wav_chunks input_wav = Inr (chunks, original_size)"
    and "reduce_volume input_wav sampwidth factor = Inr out"
  shows "\<exists>audio_frames new_frames.
           dict_get chunks (ascii_str ''data'') = Some audio_frames \<and>
           new_frames_of sampwidth factor audio_frames = Inr new_frames \<and>
           replace_data chunks sampwidth factor =
             (Inr new_frames, dict_set chunks (ascii_str ''data'') new_frames) \<and>
           write_wav_chunks (dict_set chunks (ascii_str ''data'') new_frames)
             (int original_size) = Inr out"
  using assms
  by (auto simp add: reduce_volume_def replace_data_def dict_get_def map_of_dict_set Let_def
      split: option.splits sum.splits prod.splits)

lemma reduce_volume_Inl:
  assumes "read_wav_chunks input_wav = Inr (chunks, original_size)"
    and "replace_data chunks sampwidth factor = (Inl e, chunks')"
  shows "reduce_volume input_wav sampwidth factor = Inl e"
  using assms by (simp add: reduce_volume_def)

subsection \<open>Evaluation on concrete files\<close>

lemma floor_rat_numeral [simp]:
  "\<lfloor>numeral a / numeral b :: rat\<rfloor> = numeral a div numeral b"
  using floor_divide_of_int_eq [of "numeral a" "numeral b", where ?'a = rat] by simp

lemma floor_rat_neg_numeral [simp]:
  "\<lfloor>- (numeral a / numeral b) :: rat\<rfloor> = - numeral a div numeral b"
  using floor_divide_of_int_eq [of "- numeral a" "numeral b", where ?'a = rat] by simp

lemma le_bytes_1: "le_bytes 1 n = [of_nat (n mod 256)]"
  by simp

lemma le_bytes_2: "le_bytes 2 n = [of_nat (n mod 256), of_nat (n div 256 mod 256)]"
  by (simp add: numeral_2_eq_2)

lemma le_bytes_4:
  "le_bytes 4 n =
     [of_nat (n mod 256), of_nat (n div 256 mod 256), of_nat (n div 256 div 256 mod 256),
      of_nat (n div 256 div 256 div 256 mod 256)]"
proof -
  have "le_bytes (Suc (Suc (Suc (Suc 0)))) n =
     [of_nat (n mod 256), of_nat (n div 256 mod 256), of_nat (n div 256 div 256 mod 256),
      of_nat (n div 256 div 256 div 256 mod 256)]"
    by simp
  moreover have "(4::nat) = Suc (Suc (Suc (Suc 0)))"
    by simp
  ultimately show ?thesis
    by (simp only:)
qed

lemmas f32_eval = f32_round_def f32_exponent_def round_half_even_def bitlen.simps Let_def
  astype_float32_def clip_def astype_def truncate_def

lemma new_frames_of_1:
  "new_frames_of 1 factor audio_frames =
     (case frombuffer audio_frames UInt8 of
        Inl e \<Rightarrow> Inl e
      | Inr a \<Rightarrow> Inr (tobytes UInt8 (map (processed UInt8 1 factor) a)))"
  by (auto simp add: new_frames_of_def processed_def [abs_def] comp_def Let_def split: sum.splits)

lemma new_frames_of_2:
  "new_frames_of 2 factor audio_frames =
     (case frombuffer audio_frames Int16 of
        Inl e \<Rightarrow> Inl e
      | Inr a \<Rightarrow> Inr (tobytes Int16 (map (processed Int16 2 factor) a)))"
  by (auto simp add: new_frames_of_def processed_def [abs_def] comp_def Let_def split: sum.splits)

lemma new_frames_of_4:
  "new_frames_of 4 factor audio_frames =
     (case frombuffer audio_frames Int32 of
        Inl e \<Rightarrow> Inl e
      | Inr a \<Rightarrow> Inr (tobytes Int32 (map (processed Int32 4 factor) a)))"
  by (auto simp add: new_frames_of_def processed_def [abs_def] comp_def Let_def split: sum.splits)

lemmas frames_eval = frombuffer_def items.simps tobytes_def le_bytes_1 le_bytes_2 le_bytes_4

lemma write_chunks_Inr:
  "write_chunks chunks = Inr bs \<Longrightarrow> bs = concat (map written_chunk chunks)"
proof (induction chunks arbitrary: bs)
  case Nil
  then show ?case by simp
next
  case (Cons c chunks)
  obtain chunk_id chunk_data where c: "c = (chunk_id, chunk_data)"
    by (cases c)
  from Cons.prems obtain rest where
    rest: "write_chunks chunks = Inr rest" and
    bs: "bs = map of_nat chunk_id @ le_bytes 4 (length chunk_data) @ chunk_data @ rest"
    by (auto simp add: c encode_ascii_def pack_u32_def split: if_splits sum.splits)
  from rest have "rest = concat (map written_chunk chunks)"
    by (rule Cons.IH)
  moreover have "written_chunk c =
                 map of_nat chunk_id @ le_bytes 4 (length chunk_data) @ chunk_data"
    by (simp add: c written_chunk_def)
  ultimately show ?case
    by (simp add: bs)
qed

lemma write_wav_chunks_Inr:
  assumes "write_wav_chunks chunks sz = Inr out"
  shows "out = ascii_bytes ''RIFF'' @ le_bytes 4 (nat sz) @ ascii_bytes ''WAVE''
               @ concat (map written_chunk chunks)"
  using assms
  by (auto simp add: write_wav_chunks_def pack_u32_def split: if_splits sum.splits
      dest: write_chunks_Inr)

lemma reduce_volume_riff_file:
  assumes "list_all well_sized cs" and "truncated tail" and "sz < 2 ^ 32"
  shows "reduce_volume (riff_file sz cs tail) sampwidth factor =
         (case replace_data (foldl keep_chunk [] cs) sampwidth factor of
            (Inl e, chunks') \<Rightarrow> Inl e
          | (Inr new_frames, chunks') \<Rightarrow> write_wav_chunks chunks' (int sz))"
  using read_wav_chunks_riff_file [OF assms]
  by (auto simp add: reduce_volume_def replace_data_def dict_get_def map_of_dict_set
      split: option.splits sum.splits)

lemma processed_Int16:
  "processed Int16 2 f x =
     astype Int16 (clip (f32_round (astype_float32 x * f)) (- (2 ^ 15 - 1) - 1) (2 ^ 15 - 1))"
  by (simp add: processed_def)

lemma processed_Int32:
  "processed Int32 4 f x =
     astype Int32 (clip (f32_round (astype_float32 x * f)) (- (2 ^ 31 - 1) - 1) (2 ^ 31 - 1))"
  by (simp add: processed_def)

lemma processed_Int16_examples:
  "processed Int16 2 1 1 = 1" "processed Int16 2 1 2 = 2"
  "processed Int16 2 2 1 = 2" "processed Int16 2 2 2 = 4"
  "processed Int16 2 2 32767 = 32767" "processed Int16 2 2 (- 32768) = - 32768"
  unfolding processed_Int16 by (simp_all add: f32_eval)

lemma processed_Int32_examples:
  "processed Int32 4 1 16777217 = 16777216"
  "processed Int32 4 2 1073741824 = - 2147483648"
  unfolding processed_Int32 by (simp_all add: f32_eval)

lemma new_frames_of_examples:
  "new_frames_of 2 1 [1, 0, 2, 0] = Inr [1, 0, 2, 0]"
  "new_frames_of 2 2 [1, 0, 2, 0] = Inr [2, 0, 4, 0]"
  "new_frames_of 2 2 [255, 127, 0, 128] = Inr [255, 127, 0, 128]"
  "new_frames_of 4 1 [1, 0, 0, 1] = Inr [0, 0, 0, 1]"
  "new_frames_of 4 2 [0, 0, 0, 64] = Inr [0, 0, 0, 128]"
  by (simp_all add: new_frames_of_2 new_frames_of_4 frames_eval
      processed_Int16_examples processed_Int32_examples)

lemma example_chunks_read:
  assumes "length i = 4" and "length frames < 2 ^ 32"
    and "decode_ascii_replace i \<noteq> ascii_str ''fmt ''"
    and "decode_ascii_replace i \<noteq> ascii_str ''data''"
  shows "read_wav_chunks (riff_file 50 (example_chunks w i frames) []) =
         Inr (example_dict w (decode_ascii_replace i) frames, 50)"
proof -
  have ws: "list_all well_sized (example_chunks w i frames)"
    using assms(1,2) by (simp add: example_chunks_def well_sized_def wav_fmt_def ascii_bytes_def)
  have k1: "decode_ascii_replace (ascii_bytes ''fmt '') = ascii_str ''fmt ''"
    and k2: "decode_ascii_replace (ascii_bytes ''data'') = ascii_str ''data''"
    by (simp_all add: decode_ascii_replace_def ascii_bytes_def ascii_str_def)
  have ne: "ascii_str ''fmt '' \<noteq> ascii_str ''data''"
    by (simp add: ascii_str_def)
  have "foldl keep_chunk [] (example_chunks w i frames) =
        example_dict w (decode_ascii_replace i) frames"
    using assms(3,4) ne
    by (simp add: example_chunks_def example_dict_def keep_chunk_def wav_fmt_def k1 k2)
  then show ?thesis
    using read_wav_chunks_riff_file [OF ws truncated_Nil, of 50] by simp
qed

lemma example_dict_written:
  assumes "length frames < 2 ^ 32" and "even (length frames)"
  shows "write_wav_chunks (example_dict w (ascii_str ''smpl'') frames) 50 =
         Inr (riff_file 50 (example_chunks w (ascii_bytes ''smpl'') frames) [])"
  using assms
  by (simp add: write_wav_chunks_def pack_u32_def encode_ascii_def ascii_str_def
      ascii_bytes_def riff_file_def example_chunks_def example_dict_def chunk_bytes_def
      wav_fmt_def le_bytes_2 le_bytes_4)

lemma example_replace_data:
  assumes "new_frames_of sampwidth factor frames = Inr new_frames"
    and "k \<noteq> ascii_str ''data''"
  shows "replace_data (example_dict w k frames) sampwidth factor =
         (Inr new_frames, example_dict w k new_frames)"
  using assms
  by (simp add: replace_data_def dict_get_def example_dict_def ascii_str_def)

lemma example_reduce_volume:
  assumes "length frames < 2 ^ 32" and "even (length frames)"
    and "new_frames_of sampwidth factor frames = Inr new_frames"
  shows "reduce_volume (riff_file 50 (example_chunks w (ascii_bytes ''smpl'') frames) [])
           sampwidth factor =
         Inr (riff_file 50 (example_chunks w (ascii_bytes ''smpl'') new_frames) [])"
proof -
  have len: "length new_frames = length frames"
    using assms(3) by (rule new_frames_of_length)
  have key: "decode_ascii_replace (ascii_bytes ''smpl'') = ascii_str ''smpl''"
    by (simp add: decode_ascii_replace_def ascii_bytes_def ascii_str_def)
  have ne: "ascii_str ''smpl'' \<noteq> ascii_str ''data''"
    by (simp add: ascii_str_def)
  have nf: "ascii_str ''smpl'' \<noteq> ascii_str ''fmt ''"
    by (simp add: ascii_str_def)
  have l4: "length (ascii_bytes ''smpl'') = 4"
    by (simp add: ascii_bytes_def)
  have rd: "read_wav_chunks (riff_file 50 (example_chunks w (ascii_bytes ''smpl'') frames) []) =
            Inr (example_dict w (ascii_str ''smpl'') frames, 50)"
    using example_chunks_read [OF l4 assms(1), unfolded key, OF nf ne] .
  have wr: "write_wav_chunks (example_dict w (ascii_str ''smpl'') new_frames) 50 =
            Inr (riff_file 50 (example_chunks w (ascii_bytes ''smpl'') new_frames) [])"
    using assms(1,2) len by (intro example_dict_written) simp_all
  have dg: "dict_get (example_dict w (ascii_str ''smpl'') new_frames) (ascii_str ''data'') =
            Some new_frames"
    by (simp add: dict_get_def example_dict_def ascii_str_def)
  show ?thesis
    by (simp add: reduce_volume_def rd example_replace_data [OF assms(3) ne] dg wr)
qed

section \<open>The specification's claims\<close>

text \<open>
  C6. A sample width other than 1, 2 or 4 makes the gain transform fail with the unsupported
  width error (the \<^verbatim>\<open>ValueError\<close> of line 93), and the dict of chunks is left as it
  was: the error is raised before line 115 replaces the payload. The check of the width
  comes after the check that a \<^verbatim>\<open>data\<close> chunk is present. No output file is written.
\<close>

theorem unsupported_width_leaves_chunks:
  assumes "sampwidth \<notin> {1, 2, 4}"
    and "dict_get chunks (ascii_str ''data'') = Some audio_frames"
  shows "replace_data chunks sampwidth factor = (Inl (UnsupportedSampleWidth sampwidth), chunks) \<and>
         (\<forall>input_wav declared.
            read_wav_chunks input_wav = Inr (chunks, declared) \<longrightarrow>
            reduce_volume input_wav sampwidth factor = Inl (UnsupportedSampleWidth sampwidth))"
proof -
  have r: "replace_data chunks sampwidth factor = (Inl (UnsupportedSampleWidth sampwidth), chunks)"
    using assms by (simp add: replace_data_def new_frames_of_unsupported)
  then show ?thesis
    by (auto intro: reduce_volume_Inl)
qed

theorem unsupported_width_leaves_chunks_witness:
  "replace_data [(ascii_str ''fmt '', [1, 0]), (ascii_str ''data'', [1, 2, 3])] 3 1 =
     (Inl (UnsupportedSampleWidth 3), [(ascii_str ''fmt '', [1, 0]), (ascii_str ''data'', [1, 2, 3])])"
proof -
  have w: "(3::nat) \<notin> {1, 2, 4}"
    by simp
  have d: "dict_get [(ascii_str ''fmt '', [1, 0]), (ascii_str ''data'', [1, 2, 3])]
             (ascii_str ''data'') = Some [1, 2, 3]"
    by (simp add: dict_get_def ascii_str_def)
  show ?thesis
    using unsupported_width_leaves_chunks [OF w d, of 1] by simp
qed

text \<open>
  C10. For sample widths 2 and 4, a \<^verbatim>\<open>data\<close> payload whose length is not a multiple of
  the width makes \<^verbatim>\<open>np.frombuffer\<close> raise: no partial trailing sample is processed, the
  dict is left as it was and the run fails. The error is none of the errors for a bad
  tag, a missing \<^verbatim>\<open>data\<close> chunk or an unsupported width.
\<close>

theorem partial_sample_raises:
  assumes "sampwidth = 2 \<or> sampwidth = 4"
    and "length audio_frames mod sampwidth \<noteq> 0"
    and "dict_get chunks (ascii_str ''data'') = Some audio_frames"
  shows "new_frames_of sampwidth factor audio_frames = Inl BufferSizeError \<and>
         replace_data chunks sampwidth factor = (Inl BufferSizeError, chunks) \<and>
         (\<forall>input_wav declared.
            read_wav_chunks input_wav = Inr (chunks, declared) \<longrightarrow>
            reduce_volume input_wav sampwidth factor = Inl BufferSizeError) \<and>
         BufferSizeError \<notin> {NotRiffFile, NotWavFile, DataChunkNotFound} \<union>
           range UnsupportedSampleWidth"
proof -
  have n: "new_frames_of sampwidth factor audio_frames = Inl BufferSizeError"
    using assms(1,2) by (rule new_frames_of_partial_sample)
  then have r: "replace_data chunks sampwidth factor = (Inl BufferSizeError, chunks)"
    using assms(3) by (simp add: replace_data_def)
  show ?thesis
    using n r by (auto intro: reduce_volume_Inl)
qed

theorem partial_sample_raises_witness:
  "new_frames_of 2 1 [1, 2, 3] = Inl BufferSizeError \<and>
   replace_data [(ascii_str ''data'', [1, 2, 3])] 2 1 =
     (Inl BufferSizeError, [(ascii_str ''data'', [1, 2, 3])])"
proof -
  have w: "(2::nat) = 2 \<or> (2::nat) = 4"
    by simp
  have l: "length [1, 2, 3 :: byte] mod 2 \<noteq> 0"
    by simp
  have d: "dict_get [(ascii_str ''data'', [1, 2, 3])] (ascii_str ''data'') = Some [1, 2, 3]"
    by (simp add: dict_get_def)
  show ?thesis
    using partial_sample_raises [OF w l d, of 1] by simp
qed

text \<open>
  C5. For every buffer that carries the two tags, \<^verbatim>\<open>read_wav_chunks\<close> returns normally.
  Wherever the loop stands, if fewer than 8 bytes remain, or the length declared in the
  header reaches past the end of the buffer, the loop stops and returns the dict built so
  far. So a file made of whole chunks followed by a truncated rest is read as those
  chunks.
\<close>

theorem read_wav_chunks_tolerates_truncation:
  assumes "slice data 0 4 = ascii_bytes ''RIFF''" and "slice data 8 12 = ascii_bytes ''WAVE''"
  shows "(\<exists>chunks. read_wav_chunks data = Inr (chunks, le_nat (slice data 4 8))) \<and>
         (\<forall>pos acc.
            length data < pos + 8 \<or> length data < pos + 8 + le_nat (slice data (pos + 4) (pos + 8))
            \<longrightarrow> read_loop data pos acc = Inr acc) \<and>
         (\<forall>cs tail.
            list_all well_sized cs \<and> truncated tail \<and>
            data = riff_file (le_nat (slice data 4 8)) cs tail
            \<longrightarrow> read_wav_chunks data = Inr (foldl keep_chunk [] cs, le_nat (slice data 4 8)))"
proof (intro conjI allI impI)
  obtain chunks where "read_loop data 12 [] = Inr chunks"
    using read_loop_total by blast
  then have "read_wav_chunks data = Inr (chunks, le_nat (slice data 4 8))"
    using assms by (intro read_wav_chunks_tagged)
  then show "\<exists>chunks. read_wav_chunks data = Inr (chunks, le_nat (slice data 4 8))" ..
next
  fix pos acc
  assume stop: "length data < pos + 8 \<or>
                length data < pos + 8 + le_nat (slice data (pos + 4) (pos + 8))"
  show "read_loop data pos acc = Inr acc"
  proof (cases "length data < pos + 8")
    case True
    then show ?thesis by (rule read_loop_exit)
  next
    case False
    with stop show ?thesis by (intro read_loop_past_end) simp_all
  qed
next
  fix cs tail
  let ?sz = "le_nat (slice data 4 8)"
  assume h: "list_all well_sized cs \<and> truncated tail \<and> data = riff_file ?sz cs tail"
  have "?sz < 256 ^ length (slice data 4 8)"
    by (rule le_nat_bound)
  also have "\<dots> \<le> (256::nat) ^ 4"
    by (intro power_increasing) simp_all
  finally have "?sz < 2 ^ 32" by simp
  then have "read_wav_chunks (riff_file ?sz cs tail) = Inr (foldl keep_chunk [] cs, ?sz)"
    using h by (intro read_wav_chunks_riff_file) simp_all
  then show "read_wav_chunks data = Inr (foldl keep_chunk [] cs, ?sz)"
    using h by simp
qed

theorem read_wav_chunks_tolerates_truncation_witness:
  "read_wav_chunks
     (riff_file 0 [(ascii_bytes ''abcd'', [7])] (ascii_bytes ''data'' @ [200, 0, 0, 0, 1, 2])) =
   Inr ([(ascii_str ''abcd'', [7])], 0)"
proof -
  let ?cs = "[(ascii_bytes ''abcd'', [7 :: byte])]"
  let ?tail = "ascii_bytes ''data'' @ [200, 0, 0, 0, 1, 2 :: byte]"
  let ?D = "riff_file 0 ?cs ?tail"
  have t1: "slice ?D 0 4 = ascii_bytes ''RIFF''"
    by (rule riff_file_slices)
  have t2: "slice ?D 8 12 = ascii_bytes ''WAVE''"
    by (rule riff_file_slices)
  have sz: "le_nat (slice ?D 4 8) = 0"
    by (simp add: riff_file_slices le_nat_le_bytes)
  have ws: "list_all well_sized ?cs"
    by (simp add: well_sized_def ascii_bytes_def)
  have tr: "truncated ?tail"
    by (simp add: truncated_def slice_def ascii_bytes_def)
  have "\<forall>cs tail.
          list_all well_sized cs \<and> truncated tail \<and> ?D = riff_file (le_nat (slice ?D 4 8)) cs tail
          \<longrightarrow> read_wav_chunks ?D = Inr (foldl keep_chunk [] cs, le_nat (slice ?D 4 8))"
    using read_wav_chunks_tolerates_truncation [OF t1 t2] by blast
  then have "read_wav_chunks ?D = Inr (foldl keep_chunk [] ?cs, le_nat (slice ?D 4 8))"
    using ws tr sz by metis
  then have "read_wav_chunks ?D = Inr (foldl keep_chunk [] ?cs, 0)"
    by (simp only: sz)
  moreover have "foldl keep_chunk [] ?cs = [(ascii_str ''abcd'', [7])]"
    by (simp add: keep_chunk_def decode_ascii_replace_def ascii_bytes_def ascii_str_def)
  ultimately show ?thesis
    by (simp only:)
qed

text \<open>
  C8. Of the chunks of a file that share an identifier, the last one is not always the one
  kept. The key of the dict is the \<^verbatim>\<open>str\<close> decoded from the 4 bytes, in which every
  byte above 127 is U+FFFD, so chunks with different identifiers can fall under one key:
  in a file with the chunks \<open>80 61 62 63\<close> (payload \<open>01 01\<close>), \<open>80 61 62 63\<close> (payload
  \<open>02 02\<close>) and \<open>ff 61 62 63\<close> (payload \<open>03 03\<close>) the dict has one entry for the three,
  with the payload \<open>03 03\<close>, and the payload \<open>02 02\<close> of the last chunk under
  \<open>80 61 62 63\<close> is gone. With the ASCII identifiers \<open>abcd\<close>, \<open>abcd\<close>, \<open>abce\<close> in their
  place the last \<open>abcd\<close> chunk is kept, as \<open>ascii_identifier_last_wins\<close> shows for every
  ASCII identifier.
\<close>

theorem merged_identifier_last_chunk_lost:
  "read_wav_chunks
     (riff_file 70
        [wav_fmt 2, ([128, 97, 98, 99], [1, 1]), ([128, 97, 98, 99], [2, 2]),
         ([255, 97, 98, 99], [3, 3]), (ascii_bytes ''data'', [1, 0, 2, 0])] []) =
     Inr ([(ascii_str ''fmt '', snd (wav_fmt 2)), ([65533, 97, 98, 99], [3, 3]),
           (ascii_str ''data'', [1, 0, 2, 0])], 70) \<and>
   read_wav_chunks
     (riff_file 70
        [wav_fmt 2, (ascii_bytes ''abcd'', [1, 1]), (ascii_bytes ''abcd'', [2, 2]),
         (ascii_bytes ''abce'', [3, 3]), (ascii_bytes ''data'', [1, 0, 2, 0])] []) =
     Inr ([(ascii_str ''fmt '', snd (wav_fmt 2)), (ascii_str ''abcd'', [2, 2]),
           (ascii_str ''abce'', [3, 3]), (ascii_str ''data'', [1, 0, 2, 0])], 70)"
proof -
  let ?merged = "[wav_fmt 2, ([128, 97, 98, 99], [1, 1]), ([128, 97, 98, 99], [2, 2]),
         ([255, 97, 98, 99], [3, 3]), (ascii_bytes ''data'', [1, 0, 2, 0])]"
  let ?ascii = "[wav_fmt 2, (ascii_bytes ''abcd'', [1, 1]), (ascii_bytes ''abcd'', [2, 2]),
         (ascii_bytes ''abce'', [3, 3]), (ascii_bytes ''data'', [1, 0, 2, 0])]"
  have ws: "list_all well_sized ?merged" "list_all well_sized ?ascii"
    by (simp_all add: well_sized_def wav_fmt_def ascii_bytes_def)
  have sz: "(70::nat) < 2 ^ 32"
    by simp
  have d1: "foldl keep_chunk [] ?merged =
            [(ascii_str ''fmt '', snd (wav_fmt 2)), ([65533, 97, 98, 99], [3, 3]),
             (ascii_str ''data'', [1, 0, 2, 0])]"
    by (simp add: keep_chunk_def decode_ascii_replace_def wav_fmt_def ascii_bytes_def ascii_str_def)
  have d2: "foldl keep_chunk [] ?ascii =
            [(ascii_str ''fmt '', snd (wav_fmt 2)), (ascii_str ''abcd'', [2, 2]),
             (ascii_str ''abce'', [3, 3]), (ascii_str ''data'', [1, 0, 2, 0])]"
    by (simp add: keep_chunk_def decode_ascii_replace_def wav_fmt_def ascii_bytes_def ascii_str_def)
  show ?thesis
    using read_wav_chunks_riff_file [OF ws(1) truncated_Nil sz]
      read_wav_chunks_riff_file [OF ws(2) truncated_Nil sz]
    by (simp only: d1 d2)
qed

text \<open>
  C7. Lines 61 to 115 change nothing in the dict but the payload under \<^verbatim>\<open>data\<close>: the
  keys and their order stay, every entry under another key stays as it is, and after a
  successful run the entry under \<^verbatim>\<open>data\<close> holds the new frames. The output file is the
  header followed by the entries of this dict, each written as it stands, so every chunk
  other than \<^verbatim>\<open>data\<close> (the \<^verbatim>\<open>fmt\<close> chunk, an \<^verbatim>\<open>smpl\<close> chunk) is written with the
  bytes that were read. This holds for every factor.
\<close>

theorem only_data_payload_replaced:
  assumes "replace_data chunks sampwidth factor = (r, chunks')"
  shows "map fst chunks' = map fst chunks \<and>
         (\<forall>n < length chunks.
            fst (chunks ! n) \<noteq> ascii_str ''data'' \<longrightarrow> chunks' ! n = chunks ! n) \<and>
         (\<forall>new_frames.
            r = Inr new_frames \<longrightarrow> dict_get chunks' (ascii_str ''data'') = Some new_frames) \<and>
         (\<forall>input_wav declared out.
            read_wav_chunks input_wav = Inr (chunks, declared) \<and>
            reduce_volume input_wav sampwidth factor = Inr out \<longrightarrow>
            out = ascii_bytes ''RIFF'' @ le_bytes 4 declared @ ascii_bytes ''WAVE''
                  @ concat (map written_chunk chunks'))"
proof (cases "\<exists>new_frames. r = Inr new_frames")
  case False
  then obtain e where e: "r = Inl e"
    by (cases r) auto
  with assms have same: "chunks' = chunks"
    by (auto simp add: replace_data_def split: option.splits sum.splits)
  have "reduce_volume input_wav sampwidth factor = Inl e"
    if "read_wav_chunks input_wav = Inr (chunks, declared)" for input_wav declared
    using that assms e by (simp add: reduce_volume_def)
  then show ?thesis
    using same e by auto
next
  case True
  then obtain new_frames where r: "r = Inr new_frames"
    by blast
  with assms obtain audio_frames where
    present: "map_of chunks (ascii_str ''data'') = Some audio_frames" and
    chunks': "chunks' = dict_set chunks (ascii_str ''data'') new_frames"
    by (auto simp add: replace_data_def dict_get_def split: option.splits sum.splits)
  have keys: "map fst chunks' = map fst chunks"
    using present by (simp add: chunks' map_fst_dict_set_present)
  have others: "\<forall>n < length chunks.
                  fst (chunks ! n) \<noteq> ascii_str ''data'' \<longrightarrow> chunks' ! n = chunks ! n"
    by (simp add: chunks' nth_dict_set_other)
  have new: "dict_get chunks' (ascii_str ''data'') = Some new_frames"
    by (simp add: chunks' dict_get_def map_of_dict_set)
  have "out = ascii_bytes ''RIFF'' @ le_bytes 4 declared @ ascii_bytes ''WAVE''
              @ concat (map written_chunk chunks')"
    if rd: "read_wav_chunks input_wav = Inr (chunks, declared)"
      and out: "reduce_volume input_wav sampwidth factor = Inr out" for input_wav declared out
  proof -
    from reduce_volume_Inr [OF rd out] assms r
    have "write_wav_chunks chunks' (int declared) = Inr out"
      by auto
    then show ?thesis
      by (auto dest: write_wav_chunks_Inr)
  qed
  then show ?thesis
    using keys others new r by auto
qed

theorem only_data_payload_replaced_witness:
  "replace_data (example_dict 2 (ascii_str ''smpl'') [1, 0, 2, 0]) 2 2 =
     (Inr [2, 0, 4, 0], example_dict 2 (ascii_str ''smpl'') [2, 0, 4, 0]) \<and>
   map fst (example_dict 2 (ascii_str ''smpl'') [2, 0, 4, 0]) =
     map fst (example_dict 2 (ascii_str ''smpl'') [1, 0, 2, 0]) \<and>
   example_dict 2 (ascii_str ''smpl'') [2, 0, 4, 0] ! 1 = (ascii_str ''smpl'', [9, 9])"
proof -
  let ?C = "example_dict 2 (ascii_str ''smpl'') [1, 0, 2, 0]"
  let ?C' = "example_dict 2 (ascii_str ''smpl'') [2, 0, 4, 0]"
  have ne: "ascii_str ''smpl'' \<noteq> ascii_str ''data''"
    by (simp add: ascii_str_def)
  have r: "replace_data ?C 2 2 = (Inr [2, 0, 4, 0], ?C')"
    using new_frames_of_examples(2) ne by (rule example_replace_data)
  have n: "1 < length ?C" and k: "fst (?C ! 1) \<noteq> ascii_str ''data''"
    and v: "?C ! 1 = (ascii_str ''smpl'', [9, 9])"
    using ne by (simp_all add: example_dict_def)
  from only_data_payload_replaced [OF r]
  have "map fst ?C' = map fst ?C"
    and "\<forall>n < length ?C. fst (?C ! n) \<noteq> ascii_str ''data'' \<longrightarrow> ?C' ! n = ?C ! n"
    by blast+
  then show ?thesis
    using r n k v by metis
qed

text \<open>
  C9. The size field of the output header (bytes 4 to 8) is the declared size of the
  input minus the length of the \<^verbatim>\<open>data\<close> payload before the transform plus its length
  after. Line 118 reads the length after line 115 has replaced the payload, so it
  computes the declared size itself; the two agree because the transform keeps the
  length of the payload.
\<close>

theorem header_size_field:
  assumes "read_wav_chunks input_wav = Inr (chunks, original_declared_size)"
    and "dict_get chunks (ascii_str ''data'') = Some old_audio_payload"
    and "reduce_volume input_wav sampwidth factor = Inr out"
  shows "\<exists>new_audio_payload.
           dict_get (snd (replace_data chunks sampwidth factor)) (ascii_str ''data'') =
             Some new_audio_payload \<and>
           int (le_nat (slice out 4 8)) =
             int original_declared_size - int (length old_audio_payload)
               + int (length new_audio_payload)"
proof -
  from reduce_volume_Inr [OF assms(1,3)] assms(2) obtain new_frames where
    nf: "new_frames_of sampwidth factor old_audio_payload = Inr new_frames" and
    rd: "replace_data chunks sampwidth factor =
           (Inr new_frames, dict_set chunks (ascii_str ''data'') new_frames)" and
    wr: "write_wav_chunks (dict_set chunks (ascii_str ''data'') new_frames)
           (int original_declared_size) = Inr out"
    by auto
  have len: "length new_frames = length old_audio_payload"
    using nf by (rule new_frames_of_length)
  from write_wav_chunks_shape [OF wr]
  have "original_declared_size < 2 ^ 32"
    and "slice out 4 8 = le_bytes 4 original_declared_size"
    by simp_all
  then have "le_nat (slice out 4 8) = original_declared_size"
    by (simp add: le_nat_le_bytes)
  moreover have "dict_get (snd (replace_data chunks sampwidth factor)) (ascii_str ''data'') =
                 Some new_frames"
    by (simp add: rd dict_get_def map_of_dict_set)
  ultimately show ?thesis
    using len by auto
qed

theorem header_size_field_witness:
  "reduce_volume (riff_file 50 (example_chunks 2 (ascii_bytes ''smpl'') [1, 0, 2, 0]) []) 2 1 =
     Inr (riff_file 50 (example_chunks 2 (ascii_bytes ''smpl'') [1, 0, 2, 0]) []) \<and>
   int (le_nat (slice (riff_file 50 (example_chunks 2 (ascii_bytes ''smpl'') [1, 0, 2, 0]) []) 4 8)) =
     50 - 4 + 4"
proof -
  let ?W = "riff_file 50 (example_chunks 2 (ascii_bytes ''smpl'') [1, 0, 2, 0]) []"
  let ?C = "example_dict 2 (ascii_str ''smpl'') [1, 0, 2, 0]"
  have key: "decode_ascii_replace (ascii_bytes ''smpl'') = ascii_str ''smpl''"
    by (simp add: decode_ascii_replace_def ascii_bytes_def ascii_str_def)
  have ne: "ascii_str ''smpl'' \<noteq> ascii_str ''data''" and nf: "ascii_str ''smpl'' \<noteq> ascii_str ''fmt ''"
    by (simp_all add: ascii_str_def)
  have l4: "length (ascii_bytes ''smpl'') = 4"
    by (simp add: ascii_bytes_def)
  have lf: "length [1, 0, 2, 0 :: byte] < 2 ^ 32" and ev: "even (length [1, 0, 2, 0 :: byte])"
    by simp_all
  have rd: "read_wav_chunks ?W = Inr (?C, 50)"
    using example_chunks_read [OF l4 lf, unfolded key, OF nf ne] .
  have dg: "dict_get ?C (ascii_str ''data'') = Some [1, 0, 2, 0]"
    by (simp add: dict_get_def example_dict_def ascii_str_def)
  have rv: "reduce_volume ?W 2 1 = Inr ?W"
    using lf ev new_frames_of_examples(1) by (rule example_reduce_volume)
  have rp: "replace_data ?C 2 1 = (Inr [1, 0, 2, 0], ?C)"
    using new_frames_of_examples(1) ne by (rule example_replace_data)
  from header_size_field [OF rd dg rv] obtain new_audio_payload where
    "dict_get (snd (replace_data ?C 2 1)) (ascii_str ''data'') = Some new_audio_payload"
    and sz: "int (le_nat (slice ?W 4 8)) =
             int 50 - int (length [1, 0, 2, 0 :: byte]) + int (length new_audio_payload)"
    by blast
  then have "new_audio_payload = [1, 0, 2, 0]"
    by (simp add: rp dg)
  then have "int (le_nat (slice ?W 4 8)) = 50 - 4 + 4"
    using sz by simp
  then show ?thesis
    using rv by simp
qed

text \<open>
  C1. A gain of 0 dB, the factor 1, does not give back every file byte for byte. The samples
  pass through \<^verbatim>\<open>float32\<close>, which has a significand of 24 bits: in a file of 4-byte
  samples the sample 16777217, the bytes \<open>01 00 00 01\<close>, comes back as 16777216, the bytes
  \<open>00 00 00 01\<close>, everything else in the file unchanged. (For 2-byte samples the same file
  with the payload \<open>01 00 02 00\<close> is returned as it is.)
\<close>

theorem zero_gain_changes_wide_sample:
  "reduce_volume (riff_file 50 (example_chunks 4 (ascii_bytes ''smpl'') [1, 0, 0, 1]) []) 4 1 =
     Inr (riff_file 50 (example_chunks 4 (ascii_bytes ''smpl'') [0, 0, 0, 1]) []) \<and>
   reduce_volume (riff_file 50 (example_chunks 2 (ascii_bytes ''smpl'') [1, 0, 2, 0]) []) 2 1 =
     Inr (riff_file 50 (example_chunks 2 (ascii_bytes ''smpl'') [1, 0, 2, 0]) [])"
proof
  show "reduce_volume (riff_file 50 (example_chunks 4 (ascii_bytes ''smpl'') [1, 0, 0, 1]) []) 4 1 =
     Inr (riff_file 50 (example_chunks 4 (ascii_bytes ''smpl'') [0, 0, 0, 1]) [])"
    by (rule example_reduce_volume) (simp_all add: new_frames_of_examples)
  show "reduce_volume (riff_file 50 (example_chunks 2 (ascii_bytes ''smpl'') [1, 0, 2, 0]) []) 2 1 =
     Inr (riff_file 50 (example_chunks 2 (ascii_bytes ''smpl'') [1, 0, 2, 0]) [])"
    by (rule example_reduce_volume) (simp_all add: new_frames_of_examples)
qed

text \<open>
  C2. A chunk whose identifier is not ASCII does not survive. \<^verbatim>\<open>read_wav_chunks\<close> accepts
  the identifier \<open>ff 61 62 63\<close> and keeps the chunk, but under a key in which the byte
  \<open>ff\<close> has become the code point U+FFFD, as every byte above 127 does, so the key does
  not tell the bytes of the identifier. \<^verbatim>\<open>write_wav_chunks\<close> then fails on that key with
  \<^verbatim>\<open>UnicodeEncodeError\<close>, and so does \<^verbatim>\<open>reduce_volume\<close> on the file.
\<close>

theorem non_ascii_identifier_not_written:
  "read_wav_chunks (riff_file 50 (example_chunks 2 [255, 97, 98, 99] [1, 0, 2, 0]) []) =
     Inr (example_dict 2 [65533, 97, 98, 99] [1, 0, 2, 0], 50) \<and>
   decode_ascii_replace [128, 97, 98, 99] = decode_ascii_replace [255, 97, 98, 99] \<and>
   write_wav_chunks (example_dict 2 [65533, 97, 98, 99] [1, 0, 2, 0]) 50 =
     Inl UnicodeEncodeError \<and>
   reduce_volume (riff_file 50 (example_chunks 2 [255, 97, 98, 99] [1, 0, 2, 0]) []) 2 1 =
     Inl UnicodeEncodeError"
proof -
  have key: "decode_ascii_replace [255, 97, 98, 99] = [65533, 97, 98, 99]"
    and same: "decode_ascii_replace [128, 97, 98, 99] = decode_ascii_replace [255, 97, 98, 99]"
    by (simp_all add: decode_ascii_replace_def)
  have ne: "[65533, 97, 98, 99] \<noteq> ascii_str ''data''"
    and nf: "[65533, 97, 98, 99] \<noteq> ascii_str ''fmt ''"
    by (simp_all add: ascii_str_def)
  have rd: "read_wav_chunks (riff_file 50 (example_chunks 2 [255, 97, 98, 99] [1, 0, 2, 0]) []) =
            Inr (example_dict 2 [65533, 97, 98, 99] [1, 0, 2, 0], 50)"
    using example_chunks_read [of "[255, 97, 98, 99]" "[1, 0, 2, 0]" 2] nf ne
    by (simp add: key)
  have wr: "write_wav_chunks (example_dict 2 [65533, 97, 98, 99] [1, 0, 2, 0]) 50 =
            Inl UnicodeEncodeError"
    by (simp add: write_wav_chunks_def pack_u32_def encode_ascii_def example_dict_def
        ascii_str_def wav_fmt_def)
  have dg: "dict_get (example_dict 2 [65533, 97, 98, 99] [1, 0, 2, 0]) (ascii_str ''data'') =
            Some [1, 0, 2, 0]"
    by (simp add: dict_get_def example_dict_def ascii_str_def)
  have "reduce_volume (riff_file 50 (example_chunks 2 [255, 97, 98, 99] [1, 0, 2, 0]) []) 2 1 =
        Inl UnicodeEncodeError"
    by (simp add: reduce_volume_def rd example_replace_data [OF new_frames_of_examples(1) ne]
        dg wr)
  with rd same wr show ?thesis
    by simp
qed

text \<open>
  C3. \<^verbatim>\<open>write_wav_chunks\<close> writes identifier, length and payload of each chunk and no pad
  byte, but what it writes is not read back once a payload of odd length is followed by
  another chunk. For the dict \<open>odd_chunks\<close> the file is the header and the three chunks one
  after the other; \<^verbatim>\<open>read_wav_chunks\<close> skips one byte after the 3-byte payload, takes
  \<open>ata\<close> and the first byte of the length for the next identifier, finds a length that
  passes the end of the file, and returns the first two chunks only: the \<^verbatim>\<open>data\<close> chunk
  is lost.
\<close>

theorem odd_payload_not_read_back:
  "write_wav_chunks odd_chunks 51 =
     Inr (ascii_bytes ''RIFF'' @ [51, 0, 0, 0] @ ascii_bytes ''WAVE'' @ chunk_bytes (wav_fmt 2)
          @ ascii_bytes ''note'' @ [3, 0, 0, 0] @ [7, 7, 7]
          @ ascii_bytes ''data'' @ [4, 0, 0, 0] @ [1, 0, 2, 0]) \<and>
   decode_after_encode odd_chunks 51 =
     Inr ([(ascii_str ''fmt '', snd (wav_fmt 2)), (ascii_str ''note'', [7, 7, 7])], 51)"
proof -
  let ?out = "ascii_bytes ''RIFF'' @ [51, 0, 0, 0] @ ascii_bytes ''WAVE'' @ chunk_bytes (wav_fmt 2)
          @ ascii_bytes ''note'' @ [3, 0, 0, 0] @ [7, 7, 7]
          @ ascii_bytes ''data'' @ [4, 0, 0, 0] @ [1, 0, 2, 0]"
  have w: "write_wav_chunks odd_chunks 51 = Inr ?out"
    by (simp add: write_wav_chunks_def pack_u32_def encode_ascii_def odd_chunks_def ascii_str_def
        ascii_bytes_def chunk_bytes_def wav_fmt_def le_bytes_2 le_bytes_4)
  have r: "read_loop ?out 12 [] =
           Inr [(ascii_str ''fmt '', snd (wav_fmt 2)), (ascii_str ''note'', [7, 7, 7])]"
    by (simp add: read_loop.simps unpack_u32_def slice_def decode_ascii_replace_def Let_def
        ascii_str_def ascii_bytes_def chunk_bytes_def wav_fmt_def le_bytes_2 le_bytes_4)
  have s: "slice ?out 0 4 = ascii_bytes ''RIFF''" "slice ?out 8 12 = ascii_bytes ''WAVE''"
    and n: "le_nat (slice ?out 4 8) = 51"
    by (simp_all add: slice_def ascii_bytes_def)
  have "read_wav_chunks ?out =
        Inr ([(ascii_str ''fmt '', snd (wav_fmt 2)), (ascii_str ''note'', [7, 7, 7])],
             le_nat (slice ?out 4 8))"
    using s r by (rule read_wav_chunks_tagged)
  then have "decode_after_encode odd_chunks 51 =
     Inr ([(ascii_str ''fmt '', snd (wav_fmt 2)), (ascii_str ''note'', [7, 7, 7])], 51)"
    unfolding decode_after_encode_def w n by simp
  with w show ?thesis
    by simp
qed

text \<open>
  C4. For 4-byte samples the result is not kept within \<open>- 2 ^ 31\<close> and \<open>2 ^ 31 - 1\<close>. The
  bounds of \<^verbatim>\<open>np.clip\<close> become \<^verbatim>\<open>float32\<close>, where \<open>2 ^ 31 - 1\<close> is \<open>2 ^ 31\<close>: the sample
  \<open>2 ^ 30\<close>, the bytes \<open>00 00 00 40\<close>, scaled by 2 leaves the clip as 2147483648, one above
  the largest 4-byte sample, and the cast to \<^verbatim>\<open>int32\<close> makes it \<open>- 2 ^ 31\<close>, the bytes
  \<open>00 00 00 80\<close>. For 2-byte samples the bounds are exact: 32767 and \<open>- 32768\<close>, the bytes
  \<open>ff 7f\<close> and \<open>00 80\<close>, scaled by 2 stay 32767 and \<open>- 32768\<close>.
\<close>

theorem wide_sample_clip_wraps:
  "clip (f32_round (astype_float32 1073741824 * 2)) (- (2 ^ 31 - 1) - 1) (2 ^ 31 - 1) =
     2147483648 \<and>
   reduce_volume (riff_file 50 (example_chunks 4 (ascii_bytes ''smpl'') [0, 0, 0, 64]) []) 4 2 =
     Inr (riff_file 50 (example_chunks 4 (ascii_bytes ''smpl'') [0, 0, 0, 128]) []) \<and>
   new_frames_of 2 2 [255, 127, 0, 128] = Inr [255, 127, 0, 128]"
proof -
  have "clip (f32_round (astype_float32 1073741824 * 2)) (- (2 ^ 31 - 1) - 1) (2 ^ 31 - 1) =
        2147483648"
    by (simp add: f32_eval)
  moreover have
    "reduce_volume (riff_file 50 (example_chunks 4 (ascii_bytes ''smpl'') [0, 0, 0, 64]) []) 4 2 =
     Inr (riff_file 50 (example_chunks 4 (ascii_bytes ''smpl'') [0, 0, 0, 128]) [])"
    by (rule example_reduce_volume) (simp_all add: new_frames_of_examples)
  ultimately show ?thesis
    using new_frames_of_examples(3) by simp
qed

end
